theory Spec2Isabelle
  imports Complex_Main
begin

section \<open>The terminal MP3 player of \<^verbatim>\<open>src/visualizer/player.py\<close>\<close>

text \<open>
  The player is one Python class, \<^verbatim>\<open>MP3Player\<close>, whose methods mutate the fields of
  \<^verbatim>\<open>self\<close>, and a handful of drawing functions. The methods are modelled as functions
  from the old state to the new one. Python's floats are modelled as the real numbers
  (arithmetic without rounding), Python's unbounded integers as \<^typ>\<open>int\<close>.

  Everything the methods read from outside the class is an explicit input, collected in
  the record \<open>world\<close>: the wall clock (\<^verbatim>\<open>time.time()\<close>), the answer of
  \<^verbatim>\<open>mixer.music.get_busy()\<close>, whether the mixer calls of \<^verbatim>\<open>play_song\<close> raise, the
  result of the length probe, and the values that \<^verbatim>\<open>np.random.random()\<close> returns.
\<close>

subsection \<open>State and environment\<close>

record player =
  songs_dir :: string
  songs :: "string list"
  current_song_index :: int
  paused :: bool
  volume :: real
  running :: bool
  audio_data :: "real list"
  song_start_time :: real
  pause_time :: real
  seek_offset :: real
  peak_data :: "real list"
  beat_intensity :: real
  current_song_length :: real

text \<open>
  \<open>clock\<close> is the value of \<^verbatim>\<open>time.time()\<close>; \<open>busy\<close> the value of
  \<^verbatim>\<open>mixer.music.get_busy()\<close>; \<open>play_ok\<close> says that \<^verbatim>\<open>mixer.music.load\<close>,
  \<^verbatim>\<open>set_volume\<close> and \<^verbatim>\<open>play\<close> return without raising; \<open>probe\<close> is the value of
  \<^verbatim>\<open>pygame.mixer.Sound(song_path).get_length()\<close>, \<open>None\<close> when it raises; \<open>rnd k\<close> is
  the value of the \<open>k\<close>-th call (from 0) of \<^verbatim>\<open>np.random.random()\<close> in one call of
  \<^verbatim>\<open>generate_visualizer_data\<close>.
\<close>

record world =
  clock :: real
  busy :: bool
  play_ok :: bool
  probe :: "real option"
  rnd :: "nat \<Rightarrow> real"

datatype error = IndexError

text \<open>\<^verbatim>\<open>int(x)\<close> on a float truncates towards zero.\<close>

definition py_int :: "real \<Rightarrow> int" where
  "py_int x = (if 0 \<le> x then \<lfloor>x\<rfloor> else \<lceil>x\<rceil>)"

text \<open>\<^verbatim>\<open>xs[i]\<close> on a list: indices from \<open>-len\<close> to \<open>len - 1\<close> are read, any other raises.\<close>

definition valid_index :: "'a list \<Rightarrow> int \<Rightarrow> bool" where
  "valid_index xs i \<longleftrightarrow> - int (length xs) \<le> i \<and> i < int (length xs)"

text \<open>
  \<^verbatim>\<open>__init__\<close>, with the list that \<^verbatim>\<open>load_songs\<close> finds (the sorted names of the MP3
  files of the directory) as the parameter \<open>found\<close>.
\<close>

definition load_songs :: "string list \<Rightarrow> player \<Rightarrow> player" where
  "load_songs found s = s\<lparr>songs := found\<rparr>"

definition new_player :: "string \<Rightarrow> string list \<Rightarrow> player" where
  "new_player dir found =
     load_songs found
       \<lparr>songs_dir = dir, songs = [], current_song_index = 0, paused = False,
        volume = 0.7, running = True, audio_data = replicate 64 0,
        song_start_time = 0, pause_time = 0, seek_offset = 0,
        peak_data = replicate 64 0, beat_intensity = 0, current_song_length = 0\<rparr>"

subsection \<open>The playback clock\<close>

text \<open>
  \<^verbatim>\<open>play_song\<close>: nothing happens without songs; the path lookup
  \<^verbatim>\<open>self.songs[self.current_song_index]\<close> stands before the \<^verbatim>\<open>try\<close>, so a bad index
  raises; an exception of the mixer leaves the state as it was; a failing length probe
  caches the length 0.
\<close>

definition play_song :: "world \<Rightarrow> real \<Rightarrow> player \<Rightarrow> error + player" where
  "play_song w start_pos s =
     (if songs s = [] then Inr s
      else if \<not> valid_index (songs s) (current_song_index s) then Inl IndexError
      else if \<not> play_ok w then Inr s
      else Inr (s\<lparr>paused := False,
                  song_start_time := clock w,
                  seek_offset := start_pos,
                  current_song_length := (case probe w of Some l \<Rightarrow> l | None \<Rightarrow> 0)\<rparr>))"

definition toggle_pause :: "world \<Rightarrow> player \<Rightarrow> player" where
  "toggle_pause w s =
     (if paused s
      then s\<lparr>song_start_time := song_start_time s + (clock w - pause_time s),
             paused := False\<rparr>
      else s\<lparr>pause_time := clock w, paused := True\<rparr>)"

definition next_song :: "world \<Rightarrow> player \<Rightarrow> error + player" where
  "next_song w s =
     (if songs s \<noteq> []
      then play_song w 0
             (s\<lparr>current_song_index :=
                  (current_song_index s + 1) mod int (length (songs s))\<rparr>)
      else Inr s)"

definition prev_song :: "world \<Rightarrow> player \<Rightarrow> error + player" where
  "prev_song w s =
     (if songs s \<noteq> []
      then play_song w 0
             (s\<lparr>current_song_index :=
                  (current_song_index s - 1) mod int (length (songs s))\<rparr>)
      else Inr s)"

definition get_song_position :: "world \<Rightarrow> player \<Rightarrow> real" where
  "get_song_position w s =
     (if \<not> busy w then 0
      else let elapsed = (if paused s then pause_time s - song_start_time s
                          else clock w - song_start_time s)
           in seek_offset s + elapsed)"

definition get_song_length :: "player \<Rightarrow> real" where
  "get_song_length s = current_song_length s"

text \<open>
  The two seeks read the outside three times: the guard (\<open>w\<close>), the position (\<open>w1\<close>) and
  the restart (\<open>w2\<close>). Their \<^verbatim>\<open>try ... except: pass\<close> swallows every exception of the
  restart, which leaves the fields as they were.
\<close>

definition seek_forward :: "world \<Rightarrow> world \<Rightarrow> world \<Rightarrow> player \<Rightarrow> player" where
  "seek_forward w w1 w2 s =
     (if songs s = [] \<or> \<not> busy w then s
      else let current_pos = get_song_position w1 s;
               new_pos = current_pos + 10
           in (case play_song w2 new_pos s of Inr s' \<Rightarrow> s' | Inl e \<Rightarrow> s))"

definition seek_backward :: "world \<Rightarrow> world \<Rightarrow> world \<Rightarrow> player \<Rightarrow> player" where
  "seek_backward w w1 w2 s =
     (if songs s = [] \<or> \<not> busy w then s
      else let current_pos = get_song_position w1 s;
               new_pos = max 0 (current_pos - 10)
           in (case play_song w2 new_pos s of Inr s' \<Rightarrow> s' | Inl e \<Rightarrow> s))"

definition volume_up :: "player \<Rightarrow> player" where
  "volume_up s = s\<lparr>volume := min 1.0 (volume s + 0.1)\<rparr>"

definition volume_down :: "player \<Rightarrow> player" where
  "volume_down s = s\<lparr>volume := max 0.0 (volume s - 0.1)\<rparr>"

subsection \<open>The progress bar\<close>

text \<open>
  Of \<^verbatim>\<open>draw_progress_bar\<close> the two numbers it computes: the progress and the number of
  filled cells for a terminal of the given width.
\<close>

definition progress_bar_progress :: "world \<Rightarrow> player \<Rightarrow> real" where
  "progress_bar_progress w s =
     (let position = get_song_position w s;
          length = get_song_length s
      in if length > 0 then min 1.0 (position / length) else 0)"

definition progress_bar_filled :: "world \<Rightarrow> player \<Rightarrow> int \<Rightarrow> int" where
  "progress_bar_filled w s width =
     (let progress = progress_bar_progress w s;
          bar_width = width - 24
      in py_int (progress * real_of_int bar_width))"

subsection \<open>The visualizer\<close>

text \<open>\<^verbatim>\<open>for i in range(a, b): body\<close>, as a fold over the indices.\<close>

definition for_range :: "nat \<Rightarrow> nat \<Rightarrow> (nat \<Rightarrow> 'a \<Rightarrow> 'a) \<Rightarrow> 'a \<Rightarrow> 'a" where
  "for_range a b body x = fold body [a..<b] x"

text \<open>
  The five loops of \<^verbatim>\<open>generate_visualizer_data\<close> that fill \<^verbatim>\<open>new_data\<close> from the
  beat intensity \<open>bi\<close>. Each iteration draws one random number: bar \<open>i\<close> gets draw
  \<open>1 + i\<close> (draw 0 is the test for a drop). \<^verbatim>\<open>x ** 1.3\<close> is \<open>x powr 1.3\<close>, which agrees
  with Python on every \<open>x \<ge> 0\<close>.
\<close>

definition new_frame :: "world \<Rightarrow> real \<Rightarrow> real list" where
  "new_frame w bi =
     (let new_data = replicate 64 0;
          bass_base = (bi powr 1.3) * 1.6;
          new_data = for_range 0 16 (\<lambda>i nd.
            let variation = rnd w (1 + i) * 0.6 + 0.7;
                strength = bass_base * variation * (1.0 - real i / 25)
            in nd[i := strength]) new_data;
          mid_low_base = bi * 1.35;
          new_data = for_range 16 28 (\<lambda>i nd.
            let variation = rnd w (1 + i) * 0.7 + 0.6;
                strength = mid_low_base * variation * (1.0 - (real i - 16) / 20)
            in nd[i := strength]) new_data;
          mid_base = bi * 1.2;
          new_data = for_range 28 41 (\<lambda>i nd.
            let variation = rnd w (1 + i) * 0.8 + 0.5;
                strength = mid_base * variation
            in nd[i := strength]) new_data;
          high_mid_base = bi * 1.0;
          new_data = for_range 41 53 (\<lambda>i nd.
            let variation = rnd w (1 + i) * 0.9 + 0.4;
                strength = high_mid_base * variation
            in nd[i := strength]) new_data;
          treble_base = bi * 0.85;
          new_data = for_range 53 64 (\<lambda>i nd.
            let variation = rnd w (1 + i) * 1.0 + 0.3;
                strength = treble_base * variation * (0.9 - (real i - 53) / 18)
            in nd[i := strength]) new_data
      in new_data)"

text \<open>
  The energy spike: draw 65 decides, draw 66 picks the bar. With draws in \<open>[0, 1)\<close>, as
  \<^verbatim>\<open>np.random.random()\<close> returns them, the bar is one of 0 to 63.
\<close>

definition add_spike :: "world \<Rightarrow> real list \<Rightarrow> real list" where
  "add_spike w new_data =
     (if rnd w 65 < 0.12
      then let spike_bar = nat (py_int (rnd w 66 * 64))
           in new_data[spike_bar := min 2.2 (new_data ! spike_bar + 0.7)]
      else new_data)"

definition np_clip :: "real list \<Rightarrow> real \<Rightarrow> real \<Rightarrow> real list" where
  "np_clip xs lo hi = map (\<lambda>x. min hi (max lo x)) xs"

definition update_peaks :: "real list \<Rightarrow> real list \<Rightarrow> real list" where
  "update_peaks audio peaks =
     for_range 0 (length audio) (\<lambda>i pk.
       if audio ! i > pk ! i then pk[i := audio ! i]
       else pk[i := pk ! i * 0.94]) peaks"

definition generate_visualizer_data :: "world \<Rightarrow> player \<Rightarrow> player" where
  "generate_visualizer_data w s =
     (if busy w \<and> \<not> paused s then
        let current_time = clock w;
            beat_freq = 1.8;
            beat = (sin (current_time * beat_freq * 2 * pi) + 1) / 2;
            bi = beat_intensity s * 0.75 + beat * 0.25;
            bi = (if rnd w 0 < 0.015 then bi * 0.3 else bi);
            new_data = new_frame w bi;
            new_data = add_spike w new_data;
            new_data = np_clip new_data 0 2.2;
            audio = map2 (\<lambda>a n. a * 0.35 + n * 0.65) (audio_data s) new_data
        in s\<lparr>beat_intensity := bi,
              audio_data := audio,
              peak_data := update_peaks audio (peak_data s)\<rparr>
      else
        s\<lparr>audio_data := map (\<lambda>x. x * 0.82) (audio_data s),
          peak_data := map (\<lambda>x. x * 0.88) (peak_data s),
          beat_intensity := beat_intensity s * 0.85\<rparr>)"

text \<open>Consecutive ticks, one world for each.\<close>

definition ticks :: "world list \<Rightarrow> player \<Rightarrow> player" where
  "ticks ws s = fold generate_visualizer_data ws s"

text \<open>The random draws of one tick all lie in \<open>[0, 1)\<close>.\<close>

definition valid_rnd :: "(nat \<Rightarrow> real) \<Rightarrow> bool" where
  "valid_rnd r \<longleftrightarrow> (\<forall>k<67. 0 \<le> r k \<and> r k < 1)"

subsection \<open>The bar layout\<close>

text \<open>
  The column arithmetic of \<^verbatim>\<open>draw_visualizer\<close>: the loop over the bars threads
  \<^verbatim>\<open>col_position\<close> and gives every bar its first column and its width. The result is
  the final \<^verbatim>\<open>col_position\<close> and the list of \<open>(col_start, current_bar_width)\<close>.
\<close>

definition bar_layout :: "int \<Rightarrow> nat \<Rightarrow> int \<times> (int \<times> int) list" where
  "bar_layout width bar_count =
     (let available_width = width - 4;
          bar_width = max 1 (available_width div int bar_count);
          remainder = available_width mod int bar_count
      in for_range 0 bar_count (\<lambda>i (col_position, bars).
           let current_bar_width = bar_width + (if int i < remainder then 1 else 0);
               col_start = col_position
           in (col_position + current_bar_width, bars @ [(col_start, current_bar_width)]))
         (2, []))"

definition bar_widths :: "int \<Rightarrow> nat \<Rightarrow> int list" where
  "bar_widths width bar_count = map snd (snd (bar_layout width bar_count))"

subsection \<open>Reachable states\<close>

text \<open>
  The states the program can be in: the fresh player, and whatever the methods that
  \<^verbatim>\<open>main\<close> calls make of a reachable state, in any order and under any answers of the
  outside world (with random draws in \<open>[0, 1)\<close>).
\<close>

inductive reachable :: "player \<Rightarrow> bool" where
  init: "reachable (new_player dir found)"
| play: "reachable s \<Longrightarrow> play_song w 0 s = Inr s' \<Longrightarrow> reachable s'"
| pause: "reachable s \<Longrightarrow> reachable (toggle_pause w s)"
| next_track: "reachable s \<Longrightarrow> next_song w s = Inr s' \<Longrightarrow> reachable s'"
| prev_track: "reachable s \<Longrightarrow> prev_song w s = Inr s' \<Longrightarrow> reachable s'"
| forward: "reachable s \<Longrightarrow> reachable (seek_forward w w1 w2 s)"
| backward: "reachable s \<Longrightarrow> reachable (seek_backward w w1 w2 s)"
| louder: "reachable s \<Longrightarrow> reachable (volume_up s)"
| quieter: "reachable s \<Longrightarrow> reachable (volume_down s)"
| reload: "reachable s \<Longrightarrow> reachable (load_songs found s)"
| quit: "reachable s \<Longrightarrow> reachable (s\<lparr>running := False\<rparr>)"
| tick: "reachable s \<Longrightarrow> valid_rnd (rnd w) \<Longrightarrow> reachable (generate_visualizer_data w s)"

text \<open>What every reachable state satisfies, band by band.\<close>

definition vis_inv :: "player \<Rightarrow> bool" where
  "vis_inv s \<longleftrightarrow>
     length (audio_data s) = 64 \<and> length (peak_data s) = 64 \<and>
     0 \<le> beat_intensity s \<and> beat_intensity s \<le> 1 \<and>
     (\<forall>i<64. 0 \<le> audio_data s ! i \<and> audio_data s ! i \<le> 2.2 \<and>
             0.94 * audio_data s ! i \<le> peak_data s ! i \<and> peak_data s ! i \<le> 2.2)"

text \<open>
  The frame that a playing tick blends into the displayed one: \<^verbatim>\<open>new_data\<close> after the
  spike and the clip, as a function of the state before the tick.
\<close>

definition raw_frame :: "world \<Rightarrow> player \<Rightarrow> real list" where
  "raw_frame w s =
     (let beat = (sin (clock w * 1.8 * 2 * pi) + 1) / 2;
          bi = beat_intensity s * 0.75 + beat * 0.25;
          bi = (if rnd w 0 < 0.015 then bi * 0.3 else bi)
      in np_clip (add_spike w (new_frame w bi)) 0 2.2)"

subsection \<open>Concrete inputs\<close>

text \<open>
  A world at clock \<open>t\<close> whose mixer answers \<open>b\<close>, whose mixer calls succeed, whose length
  probe fails and whose random draws are all 0; a fresh player with three tracks; that
  player after \<^verbatim>\<open>play_song()\<close> at clock 100; and the fresh player after one playing tick
  at clock 0.
\<close>

definition quiet :: "real \<Rightarrow> bool \<Rightarrow> world" where
  "quiet t b = \<lparr>clock = t, busy = b, play_ok = True, probe = None, rnd = (\<lambda>k. 0)\<rparr>"

definition three_tracks :: player where
  "three_tracks = new_player ''songs'' [''a.mp3'', ''b.mp3'', ''c.mp3'']"

definition started :: player where
  "started = three_tracks\<lparr>paused := False, song_start_time := 100, seek_offset := 0,
                           current_song_length := 0\<rparr>"

definition first_tick :: player where
  "first_tick = generate_visualizer_data (quiet 0 True) three_tracks"

section \<open>Properties\<close>

subsection \<open>Loops that update one cell per iteration\<close>

lemma for_range_update_length:
  assumes "\<And>i nd. body i nd = nd[i := h i (nd ! i)]"
  shows "length (for_range a b body xs) = length xs"
proof (induction b)
  case 0
  then show ?case by (simp add: for_range_def)
next
  case (Suc b)
  then show ?case by (simp add: for_range_def assms)
qed

lemma for_range_update_nth:
  assumes body: "\<And>i nd. body i nd = nd[i := h i (nd ! i)]"
  shows "j < length xs \<Longrightarrow>
    for_range a b body xs ! j = (if a \<le> j \<and> j < b then h j (xs ! j) else xs ! j)"
proof (induction b arbitrary: j)
  case 0
  then show ?case by (simp add: for_range_def)
next
  case (Suc b)
  define ys where "ys = for_range a b body xs"
  have len: "length ys = length xs"
    unfolding ys_def by (rule for_range_update_length [OF body])
  have old: "ys ! k = (if a \<le> k \<and> k < b then h k (xs ! k) else xs ! k)"
    if "k < length xs" for k
    unfolding ys_def using Suc.IH that by blast
  show ?case
  proof (cases "a \<le> b")
    case True
    then have step: "for_range a (Suc b) body xs = ys[b := h b (ys ! b)]"
      by (simp add: for_range_def ys_def body)
    show ?thesis
    proof (cases "j = b")
      case True
      with Suc.prems len old [of b] \<open>a \<le> b\<close> show ?thesis
        by (simp add: step)
    next
      case False
      with Suc.prems old [of j] show ?thesis
        by (simp add: step)
    qed
  next
    case False
    then show ?thesis by (auto simp add: for_range_def)
  qed
qed

lemma for_range_assign_length:
  "length (for_range a b (\<lambda>i nd. nd[i := f i]) xs) = length xs"
  by (rule for_range_update_length [where h = "\<lambda>i x. f i"]) simp

lemma for_range_assign_nth:
  "j < length xs \<Longrightarrow>
   for_range a b (\<lambda>i nd. nd[i := f i]) xs ! j = (if a \<le> j \<and> j < b then f j else xs ! j)"
  by (rule for_range_update_nth [where h = "\<lambda>i x. f i"]) simp_all

subsection \<open>The parts of a tick\<close>

lemma length_new_frame: "length (new_frame w bi) = 64"
  by (simp add: new_frame_def Let_def for_range_assign_length)

text \<open>The five band groups, read off the five loops.\<close>

lemma new_frame_nth:
  assumes "i < 64"
  shows "new_frame w bi ! i =
    (if i < 16 then (bi powr 1.3) * 1.6 * (rnd w (1 + i) * 0.6 + 0.7) * (1.0 - real i / 25)
     else if i < 28 then bi * 1.35 * (rnd w (1 + i) * 0.7 + 0.6) * (1.0 - (real i - 16) / 20)
     else if i < 41 then bi * 1.2 * (rnd w (1 + i) * 0.8 + 0.5)
     else if i < 53 then bi * 1.0 * (rnd w (1 + i) * 0.9 + 0.4)
     else bi * 0.85 * (rnd w (1 + i) * 1.0 + 0.3) * (0.9 - (real i - 53) / 18))"
  using assms
  by (simp add: new_frame_def Let_def for_range_assign_nth for_range_assign_length)

lemma length_add_spike: "length (add_spike w nd) = length nd"
  by (simp add: add_spike_def Let_def)

lemma length_np_clip: "length (np_clip xs lo hi) = length xs"
  by (simp add: np_clip_def)

lemma np_clip_bounds:
  "i < length xs \<Longrightarrow> lo \<le> hi \<Longrightarrow> lo \<le> np_clip xs lo hi ! i \<and> np_clip xs lo hi ! i \<le> hi"
  by (simp add: np_clip_def)

lemma update_peaks_body:
  fixes audio pk :: "real list"
  shows "(if audio ! i > pk ! i then pk[i := audio ! i] else pk[i := pk ! i * 0.94]) =
   pk[i := (if audio ! i > pk ! i then audio ! i else pk ! i * 0.94)]"
  by simp

lemma length_update_peaks: "length (update_peaks audio pk) = length pk"
  unfolding update_peaks_def
  by (rule for_range_update_length
        [where h = "\<lambda>i x. if audio ! i > x then audio ! i else x * 0.94"])
     (rule update_peaks_body)

lemma update_peaks_nth:
  assumes "j < length pk" and "j < length audio"
  shows "update_peaks audio pk ! j = (if audio ! j > pk ! j then audio ! j else pk ! j * 0.94)"
proof -
  have "update_peaks audio pk ! j =
      (if 0 \<le> j \<and> j < length audio
       then (if audio ! j > pk ! j then audio ! j else pk ! j * 0.94) else pk ! j)"
    unfolding update_peaks_def
    by (rule for_range_update_nth
          [where h = "\<lambda>i x. if audio ! i > x then audio ! i else x * 0.94"])
       (rule update_peaks_body, rule assms(1))
  with assms(2) show ?thesis by simp
qed

lemma length_raw_frame: "length (raw_frame w s) = 64"
  by (simp add: raw_frame_def Let_def length_np_clip length_add_spike length_new_frame)

lemma raw_frame_bounds: "i < 64 \<Longrightarrow> 0 \<le> raw_frame w s ! i \<and> raw_frame w s ! i \<le> 2.2"
  unfolding raw_frame_def Let_def
  by (rule np_clip_bounds) (simp_all add: length_add_spike length_new_frame)

subsection \<open>One tick\<close>

lemma playing_audio:
  "busy w \<Longrightarrow> \<not> paused s \<Longrightarrow>
   audio_data (generate_visualizer_data w s) =
     map2 (\<lambda>a n. a * 0.35 + n * 0.65) (audio_data s) (raw_frame w s)"
  by (simp add: generate_visualizer_data_def raw_frame_def Let_def)

lemma playing_peaks:
  "busy w \<Longrightarrow> \<not> paused s \<Longrightarrow>
   peak_data (generate_visualizer_data w s) =
     update_peaks (audio_data (generate_visualizer_data w s)) (peak_data s)"
  by (simp add: generate_visualizer_data_def Let_def)

lemma playing_audio_nth:
  assumes "busy w" and "\<not> paused s" and "length (audio_data s) = 64" and "i < 64"
  shows "audio_data (generate_visualizer_data w s) ! i =
           audio_data s ! i * 0.35 + raw_frame w s ! i * 0.65"
  using assms by (simp add: playing_audio length_raw_frame)

lemma playing_peaks_nth:
  assumes "busy w" and "\<not> paused s" and "length (audio_data s) = 64"
    and "length (peak_data s) = 64" and "i < 64"
  shows "peak_data (generate_visualizer_data w s) ! i =
           (if audio_data (generate_visualizer_data w s) ! i > peak_data s ! i
            then audio_data (generate_visualizer_data w s) ! i
            else peak_data s ! i * 0.94)"
proof -
  have "length (audio_data (generate_visualizer_data w s)) = 64"
    using assms by (simp add: playing_audio length_raw_frame)
  with assms show ?thesis
    by (simp add: playing_peaks update_peaks_nth)
qed

lemma beat_bounds: "0 \<le> (sin x + 1) / 2 \<and> (sin x + 1) / 2 \<le> (1::real)"
proof -
  have "0 \<le> sin x + 1" using sin_ge_minus_one [of x] by linarith
  moreover have "sin x + 1 \<le> 2" using sin_le_one [of x] by linarith
  ultimately show ?thesis by simp
qed

lemma playing_beat_intensity:
  assumes "busy w" and "\<not> paused s"
    and "0 \<le> beat_intensity s" and "beat_intensity s \<le> 1"
  shows "0 \<le> beat_intensity (generate_visualizer_data w s) \<and>
         beat_intensity (generate_visualizer_data w s) \<le> 1"
proof -
  define beat where "beat = (sin (clock w * 1.8 * 2 * pi) + 1) / 2"
  define bi where "bi = beat_intensity s * 0.75 + beat * 0.25"
  have b: "0 \<le> beat" "beat \<le> 1"
    unfolding beat_def using beat_bounds by blast+
  have bi: "0 \<le> bi" "bi \<le> 1"
    unfolding bi_def using b assms(3,4) by simp_all
  have "beat_intensity (generate_visualizer_data w s) =
          (if rnd w 0 < 0.015 then bi * 0.3 else bi)"
    using assms(1,2) by (simp add: generate_visualizer_data_def Let_def bi_def beat_def)
  with bi show ?thesis by simp
qed

lemma idle_tick:
  "\<not> (busy w \<and> \<not> paused s) \<Longrightarrow>
   generate_visualizer_data w s =
     s\<lparr>audio_data := map (\<lambda>x. x * 0.82) (audio_data s),
       peak_data := map (\<lambda>x. x * 0.88) (peak_data s),
       beat_intensity := beat_intensity s * 0.85\<rparr>"
  by (cases "busy w"; cases "paused s"; simp add: generate_visualizer_data_def)

subsection \<open>The invariant of the visualizer\<close>

lemma vis_inv_tick:
  assumes "vis_inv s"
  shows "vis_inv (generate_visualizer_data w s)"
proof (cases "busy w \<and> \<not> paused s")
  case True
  then have p: "busy w" "\<not> paused s" by simp_all
  have len: "length (audio_data s) = 64" "length (peak_data s) = 64"
    using assms by (simp_all add: vis_inv_def)
  have band: "0 \<le> audio_data (generate_visualizer_data w s) ! i \<and>
      audio_data (generate_visualizer_data w s) ! i \<le> 2.2 \<and>
      0.94 * audio_data (generate_visualizer_data w s) ! i
        \<le> peak_data (generate_visualizer_data w s) ! i \<and>
      peak_data (generate_visualizer_data w s) ! i \<le> 2.2" if "i < 64" for i
  proof -
    have old: "0 \<le> audio_data s ! i" "audio_data s ! i \<le> 2.2"
       "0.94 * audio_data s ! i \<le> peak_data s ! i" "peak_data s ! i \<le> 2.2"
      using assms that by (simp_all add: vis_inv_def)
    have raw: "0 \<le> raw_frame w s ! i" "raw_frame w s ! i \<le> 2.2"
      using raw_frame_bounds [OF that] by simp_all
    show ?thesis
      unfolding playing_peaks_nth [OF p len that] playing_audio_nth [OF p len(1) that]
      using old raw by auto
  qed
  have "0 \<le> beat_intensity (generate_visualizer_data w s) \<and>
        beat_intensity (generate_visualizer_data w s) \<le> 1"
    using playing_beat_intensity [OF p] assms by (simp add: vis_inv_def)
  moreover have "length (audio_data (generate_visualizer_data w s)) = 64"
    using len p by (simp add: playing_audio length_raw_frame)
  moreover have "length (peak_data (generate_visualizer_data w s)) = 64"
    using len p by (simp add: playing_peaks length_update_peaks)
  ultimately show ?thesis
    using band by (simp add: vis_inv_def)
next
  case False
  have st: "generate_visualizer_data w s =
     s\<lparr>audio_data := map (\<lambda>x. x * 0.82) (audio_data s),
       peak_data := map (\<lambda>x. x * 0.88) (peak_data s),
       beat_intensity := beat_intensity s * 0.85\<rparr>"
    by (rule idle_tick [OF False])
  have len: "length (audio_data s) = 64" "length (peak_data s) = 64"
    using assms by (simp_all add: vis_inv_def)
  have "0 \<le> map (\<lambda>x. x * 0.82) (audio_data s) ! i \<and>
        map (\<lambda>x. x * 0.82) (audio_data s) ! i \<le> 2.2 \<and>
        0.94 * map (\<lambda>x. x * 0.82) (audio_data s) ! i
          \<le> map (\<lambda>x. x * 0.88) (peak_data s) ! i \<and>
        map (\<lambda>x. x * 0.88) (peak_data s) ! i \<le> 2.2" if "i < 64" for i
  proof -
    have old: "0 \<le> audio_data s ! i" "audio_data s ! i \<le> 2.2"
       "0.94 * audio_data s ! i \<le> peak_data s ! i" "peak_data s ! i \<le> 2.2"
      using assms that by (simp_all add: vis_inv_def)
    have "map (\<lambda>x. x * 0.82) (audio_data s) ! i = audio_data s ! i * 0.82"
      and "map (\<lambda>x. x * 0.88) (peak_data s) ! i = peak_data s ! i * 0.88"
      using len that by simp_all
    with old show ?thesis by simp
  qed
  moreover have "0 \<le> beat_intensity s * 0.85 \<and> beat_intensity s * 0.85 \<le> 1"
    using assms by (simp add: vis_inv_def)
  ultimately show ?thesis
    using len by (simp add: st vis_inv_def)
qed

lemma vis_inv_new_player: "vis_inv (new_player dir found)"
  by (simp add: vis_inv_def new_player_def load_songs_def)

text \<open>No method but \<^verbatim>\<open>generate_visualizer_data\<close> writes the three visualizer fields.\<close>

lemma vis_inv_same:
  assumes "vis_inv s" and "audio_data s' = audio_data s" and "peak_data s' = peak_data s"
    and "beat_intensity s' = beat_intensity s"
  shows "vis_inv s'"
  using assms by (simp add: vis_inv_def)

lemma play_song_visualizer:
  assumes "play_song w p s = Inr s'"
  shows "audio_data s' = audio_data s \<and> peak_data s' = peak_data s \<and>
         beat_intensity s' = beat_intensity s"
  using assms by (auto simp add: play_song_def split: if_splits)

lemma toggle_pause_visualizer:
  "audio_data (toggle_pause w s) = audio_data s \<and> peak_data (toggle_pause w s) = peak_data s \<and>
   beat_intensity (toggle_pause w s) = beat_intensity s"
  by (simp add: toggle_pause_def)

lemma next_song_visualizer:
  assumes "next_song w s = Inr s'"
  shows "audio_data s' = audio_data s \<and> peak_data s' = peak_data s \<and>
         beat_intensity s' = beat_intensity s"
  using assms play_song_visualizer [of w 0 _ s']
  by (auto simp add: next_song_def split: if_splits)

lemma prev_song_visualizer:
  assumes "prev_song w s = Inr s'"
  shows "audio_data s' = audio_data s \<and> peak_data s' = peak_data s \<and>
         beat_intensity s' = beat_intensity s"
  using assms play_song_visualizer [of w 0 _ s']
  by (auto simp add: prev_song_def split: if_splits)

lemma seek_forward_visualizer:
  "audio_data (seek_forward w w1 w2 s) = audio_data s \<and>
   peak_data (seek_forward w w1 w2 s) = peak_data s \<and>
   beat_intensity (seek_forward w w1 w2 s) = beat_intensity s"
  using play_song_visualizer [of w2 _ s]
  by (auto simp add: seek_forward_def Let_def split: sum.splits)

lemma seek_backward_visualizer:
  "audio_data (seek_backward w w1 w2 s) = audio_data s \<and>
   peak_data (seek_backward w w1 w2 s) = peak_data s \<and>
   beat_intensity (seek_backward w w1 w2 s) = beat_intensity s"
  using play_song_visualizer [of w2 _ s]
  by (auto simp add: seek_backward_def Let_def split: sum.splits)

lemma reachable_vis_inv: "reachable s \<Longrightarrow> vis_inv s"
proof (induction rule: reachable.induct)
  case (init dir found)
  show ?case by (rule vis_inv_new_player)
next
  case (play s w s')
  then show ?case using play_song_visualizer vis_inv_same by blast
next
  case (pause s w)
  then show ?case using toggle_pause_visualizer vis_inv_same by blast
next
  case (next_track s w s')
  then show ?case using next_song_visualizer vis_inv_same by blast
next
  case (prev_track s w s')
  then show ?case using prev_song_visualizer vis_inv_same by blast
next
  case (forward s w w1 w2)
  then show ?case using seek_forward_visualizer vis_inv_same by blast
next
  case (backward s w w1 w2)
  then show ?case using seek_backward_visualizer vis_inv_same by blast
next
  case (louder s)
  then show ?case by (simp add: vis_inv_def volume_up_def)
next
  case (quieter s)
  then show ?case by (simp add: vis_inv_def volume_down_def)
next
  case (reload s found)
  then show ?case by (simp add: vis_inv_def load_songs_def)
next
  case (quit s)
  then show ?case by (simp add: vis_inv_def)
next
  case (tick s w)
  then show ?case by (simp add: vis_inv_tick)
qed

subsection \<open>Facts about the concrete inputs\<close>

lemmas demo_defs = quiet_def three_tracks_def started_def new_player_def load_songs_def

lemma reachable_three_tracks: "reachable three_tracks"
  unfolding three_tracks_def by (rule reachable.init)

lemma valid_rnd_quiet: "valid_rnd (rnd (quiet t b))"
  by (simp add: valid_rnd_def quiet_def)

lemma play_three_tracks: "play_song (quiet 100 True) 0 three_tracks = Inr started"
  by (simp add: play_song_def valid_index_def demo_defs)

text \<open>
  The first playing tick of a fresh player, at clock 0 with all draws 0: the beat is
  \<open>1/2\<close>, the intensity \<open>1/8\<close> and after the drop \<open>0.0375\<close>; band 30 of the new frame is
  \<open>0.0375 * 1.2 * 0.5 = 0.0225\<close>, the spike goes to band 0, and the blend with the old
  value 0 gives \<open>0.0225 * 0.65\<close>.
\<close>

lemma first_tick_band_30:
  "audio_data (generate_visualizer_data (quiet 0 True) three_tracks) ! 30 = 0.014625"
proof -
  have p: "busy (quiet 0 True)" "\<not> paused three_tracks"
    by (simp_all add: demo_defs)
  have len: "length (audio_data three_tracks) = 64"
    by (simp add: demo_defs)
  have "raw_frame (quiet 0 True) three_tracks ! 30 = 0.0225"
    by (simp add: raw_frame_def Let_def np_clip_def length_add_spike length_new_frame
        add_spike_def py_int_def new_frame_nth demo_defs)
  moreover have "audio_data three_tracks ! 30 = 0"
    by (simp add: demo_defs)
  ultimately show ?thesis
    by (simp add: playing_audio_nth [OF p len])
qed

lemma reachable_first_tick: "reachable first_tick"
  unfolding first_tick_def
  by (rule reachable.tick [OF reachable_three_tracks valid_rnd_quiet])

subsection \<open>Auxiliary facts for navigation, fading and the bar layout\<close>

lemma mod_index_valid: "xs \<noteq> [] \<Longrightarrow> valid_index xs (i mod int (length xs))"
proof -
  assume "xs \<noteq> []"
  then have "0 < int (length xs)" by simp
  then have "0 \<le> i mod int (length xs)" and "i mod int (length xs) < int (length xs)"
    by simp_all
  then show ?thesis by (simp add: valid_index_def)
qed

lemma idle_ticks:
  "\<forall>w\<in>set ws. \<not> (busy w \<and> \<not> paused s) \<Longrightarrow>
   ticks ws s =
     s\<lparr>audio_data := map (\<lambda>x. x * 0.82 ^ length ws) (audio_data s),
       peak_data := map (\<lambda>x. x * 0.88 ^ length ws) (peak_data s),
       beat_intensity := beat_intensity s * 0.85 ^ length ws\<rparr>"
proof (induction ws arbitrary: s)
  case Nil
  show ?case by (simp add: ticks_def)
next
  case (Cons w ws)
  define s1 where "s1 = generate_visualizer_data w s"
  have idle: "\<not> (busy w \<and> \<not> paused s)" using Cons.prems by simp
  have s1: "s1 = s\<lparr>audio_data := map (\<lambda>x. x * 0.82) (audio_data s),
       peak_data := map (\<lambda>x. x * 0.88) (peak_data s),
       beat_intensity := beat_intensity s * 0.85\<rparr>"
    unfolding s1_def by (rule idle_tick [OF idle])
  have "paused s1 = paused s" by (simp add: s1)
  with Cons.prems have "\<forall>w\<in>set ws. \<not> (busy w \<and> \<not> paused s1)" by simp
  then have "ticks ws s1 =
     s1\<lparr>audio_data := map (\<lambda>x. x * 0.82 ^ length ws) (audio_data s1),
       peak_data := map (\<lambda>x. x * 0.88 ^ length ws) (peak_data s1),
       beat_intensity := beat_intensity s1 * 0.85 ^ length ws\<rparr>"
    by (rule Cons.IH)
  moreover have "ticks (w # ws) s = ticks ws s1"
    by (simp add: ticks_def s1_def)
  ultimately show ?case
    by (simp add: s1 o_def mult.assoc)
qed

lemma fade_le:
  fixes x c :: real
  assumes "0 \<le> x" and "0 \<le> c" and "c \<le> 1"
  shows "x * c ^ n \<le> x"
proof -
  have "c ^ n \<le> 1" using assms(2,3) by (rule power_le_one)
  with assms(1) show ?thesis by (simp add: mult_left_le)
qed

lemma indicator_sum:
  "(\<Sum>i<n. if int i < r then 1 else 0) = min (int n) (max 0 r)"
  by (induction n) auto

lemma layout_loop:
  "for_range 0 n (\<lambda>i (col_position, bars).
       (col_position + (bw + (if int i < r then 1 else 0)),
        bars @ [(col_position, bw + (if int i < r then 1 else 0))]))
     (c, bs) =
   (c + (\<Sum>i<n. bw + (if int i < r then 1 else 0)),
    bs @ map (\<lambda>i. (c + (\<Sum>j<i. bw + (if int j < r then 1 else 0)),
                    bw + (if int i < r then 1 else 0))) [0..<n])"
  by (induction n) (simp_all add: for_range_def add.assoc)

lemma sum_list_map_upt: "sum_list (map f [0..<n]) = (\<Sum>i<n. f i)" for f :: "nat \<Rightarrow> int"
  by (induction n) simp_all

text \<open>The columns that the 64 bars take, for every width.\<close>

lemma bar_widths_sum:
  "sum_list (bar_widths width 64) = 64 * max 1 ((width - 4) div 64) + (width - 4) mod 64"
proof -
  have r: "0 \<le> (width - 4) mod 64" "(width - 4) mod 64 < 64" by simp_all
  have "sum_list (bar_widths width 64) =
      (\<Sum>i<64. max 1 ((width - 4) div 64) + (if int i < (width - 4) mod 64 then 1 else 0))"
    by (simp add: bar_widths_def bar_layout_def Let_def layout_loop o_def sum_list_map_upt)
  also have "\<dots> = 64 * max 1 ((width - 4) div 64) + min (int 64) (max 0 ((width - 4) mod 64))"
    by (simp only: sum.distrib indicator_sum) simp
  finally show ?thesis using r by simp
qed

section \<open>The claims\<close>

subsection \<open>C1: the position formula\<close>

text \<open>
  C1, as the code has it: \<^verbatim>\<open>get_song_position\<close> returns \<open>seek_offset\<close> plus the elapsed
  time, where the elapsed time is \<open>pause_time - song_start_time\<close> when paused and
  \<open>now - song_start_time\<close> otherwise, whenever the mixer reports that it is busy; when the
  mixer is not busy it returns 0. This holds in every state, so in every reachable one.
\<close>

theorem get_song_position_formula:
  "get_song_position w s =
     (if busy w
      then seek_offset s + ((if paused s then pause_time s else clock w) - song_start_time s)
      else 0)"
  by (simp add: get_song_position_def)

text \<open>
  The formula without the guard fails: a player started at clock 100 and asked at clock
  130 while the mixer is not busy reports 0, not 30.
\<close>

theorem position_formula_counterexample:
  "play_song (quiet 100 True) 0 three_tracks = Inr started \<and>
   get_song_position (quiet 130 False) started = 0 \<and>
   seek_offset started + (clock (quiet 130 False) - song_start_time started) = 30 \<and>
   get_song_position (quiet 130 False) started \<noteq>
     seek_offset started + (clock (quiet 130 False) - song_start_time started)"
  by (simp add: play_song_def valid_index_def get_song_position_def demo_defs)

subsection \<open>C2: position continuity\<close>

text \<open>
  C2: in a state that is not paused, a pause at one clock reading followed by a resume
  at any other leaves the reported position where it was: the position read with the
  clock of the resume, after the resume, is the position read with the clock of the
  pause, before the pause (the mixer answering the same both times). The state after the
  resume is again not paused, so this holds for every pause and resume of a sequence.
\<close>

theorem pause_resume_continuity:
  assumes "\<not> paused s" and "busy w2 = busy w1"
  shows "get_song_position w2 (toggle_pause w2 (toggle_pause w1 s)) = get_song_position w1 s
         \<and> \<not> paused (toggle_pause w2 (toggle_pause w1 s))"
  using assms by (simp add: get_song_position_def toggle_pause_def)

theorem pause_resume_continuity_witness:
  "\<not> paused started \<and> busy (quiet 250 True) = busy (quiet 130 True) \<and>
   get_song_position (quiet 130 True) started = 30 \<and>
   get_song_position (quiet 250 True)
     (toggle_pause (quiet 250 True) (toggle_pause (quiet 130 True) started)) = 30"
  using pause_resume_continuity [of started "quiet 250 True" "quiet 130 True"]
  by (simp add: get_song_position_def toggle_pause_def demo_defs)

subsection \<open>C3: bounded amplitude\<close>

text \<open>
  C3: in every reachable state, and after one more tick of
  \<^verbatim>\<open>generate_visualizer_data\<close> from it (playing or not, with any clock and any random
  draws in \<open>[0, 1)\<close>), every band of \<open>audio_data\<close> and of \<open>peak_data\<close> lies in \<open>[0, 2.2]\<close>.
\<close>

theorem bounded_amplitude:
  assumes "reachable s" and "valid_rnd (rnd w)" and "i < 64"
  shows "0 \<le> audio_data s ! i \<and> audio_data s ! i \<le> 2.2 \<and>
         0 \<le> peak_data s ! i \<and> peak_data s ! i \<le> 2.2 \<and>
         0 \<le> audio_data (generate_visualizer_data w s) ! i \<and>
         audio_data (generate_visualizer_data w s) ! i \<le> 2.2 \<and>
         0 \<le> peak_data (generate_visualizer_data w s) ! i \<and>
         peak_data (generate_visualizer_data w s) ! i \<le> 2.2"
proof -
  have band: "0 \<le> audio_data t ! i \<and> audio_data t ! i \<le> 2.2 \<and>
      0 \<le> peak_data t ! i \<and> peak_data t ! i \<le> 2.2" if "vis_inv t" for t
  proof -
    from that assms(3) have "0 \<le> audio_data t ! i" "audio_data t ! i \<le> 2.2"
      "0.94 * audio_data t ! i \<le> peak_data t ! i" "peak_data t ! i \<le> 2.2"
      by (simp_all add: vis_inv_def)
    then show ?thesis by simp
  qed
  have "vis_inv s" using assms(1) by (rule reachable_vis_inv)
  then have "vis_inv (generate_visualizer_data w s)" by (rule vis_inv_tick)
  with \<open>vis_inv s\<close> band show ?thesis by blast
qed

theorem bounded_amplitude_witness:
  "reachable three_tracks \<and> valid_rnd (rnd (quiet 0 True)) \<and> (30::nat) < 64 \<and>
   audio_data (generate_visualizer_data (quiet 0 True) three_tracks) ! 30 = 0.014625 \<and>
   0 \<le> audio_data (generate_visualizer_data (quiet 0 True) three_tracks) ! 30 \<and>
   audio_data (generate_visualizer_data (quiet 0 True) three_tracks) ! 30 \<le> 2.2 \<and>
   0 \<le> peak_data (generate_visualizer_data (quiet 0 True) three_tracks) ! 30 \<and>
   peak_data (generate_visualizer_data (quiet 0 True) three_tracks) ! 30 \<le> 2.2"
  using bounded_amplitude [OF reachable_three_tracks valid_rnd_quiet [of 0 True], of 30]
    reachable_three_tracks valid_rnd_quiet [of 0 True] first_tick_band_30
  by simp

subsection \<open>C4: the peak decay law\<close>

text \<open>
  C4: for a tick from a reachable state and every band \<open>i\<close>: if the new
  \<open>audio_data[i]\<close> exceeds the previous \<open>peak_data[i]\<close>, the new \<open>peak_data[i]\<close> is that
  value; otherwise the new \<open>peak_data[i]\<close> is at most the previous one. This holds in the
  playing and in the not-playing branch (where the faded band never exceeds the previous
  peak).
\<close>

theorem peak_decay_law:
  assumes "reachable s" and "valid_rnd (rnd w)" and "i < 64"
  shows "(if audio_data (generate_visualizer_data w s) ! i > peak_data s ! i
          then peak_data (generate_visualizer_data w s) ! i =
                 audio_data (generate_visualizer_data w s) ! i
          else peak_data (generate_visualizer_data w s) ! i \<le> peak_data s ! i)"
proof -
  have inv: "vis_inv s" using assms(1) by (rule reachable_vis_inv)
  then have len: "length (audio_data s) = 64" "length (peak_data s) = 64"
    by (simp_all add: vis_inv_def)
  from inv assms(3) have old: "0 \<le> audio_data s ! i"
      "0.94 * audio_data s ! i \<le> peak_data s ! i"
    by (simp_all add: vis_inv_def)
  show ?thesis
  proof (cases "busy w \<and> \<not> paused s")
    case True
    then have p: "busy w" "\<not> paused s" by simp_all
    show ?thesis
      using old by (simp add: playing_peaks_nth [OF p len assms(3)])
  next
    case False
    have a: "audio_data (generate_visualizer_data w s) ! i = audio_data s ! i * 0.82"
      and pk: "peak_data (generate_visualizer_data w s) ! i = peak_data s ! i * 0.88"
      using len assms(3) by (simp_all add: idle_tick [OF False])
    from old show ?thesis unfolding a pk by simp
  qed
qed

theorem peak_decay_law_witness:
  "reachable three_tracks \<and> valid_rnd (rnd (quiet 0 True)) \<and> (30::nat) < 64 \<and>
   peak_data three_tracks ! 30 = 0 \<and>
   audio_data (generate_visualizer_data (quiet 0 True) three_tracks) ! 30 = 0.014625 \<and>
   peak_data (generate_visualizer_data (quiet 0 True) three_tracks) ! 30 = 0.014625"
proof -
  have "peak_data three_tracks ! 30 = 0"
    by (simp add: demo_defs)
  then show ?thesis
    using peak_decay_law [OF reachable_three_tracks valid_rnd_quiet [of 0 True], of 30]
      reachable_three_tracks valid_rnd_quiet [of 0 True] first_tick_band_30
    by simp
qed

subsection \<open>C5: bar fill exactness\<close>

text \<open>
  C5, as the code has it: for \<open>bar_count = 64\<close> and every available width
  (\<open>width - 4\<close>) of at least 64 columns, the widths of the 64 bars (the base width plus
  one extra column for each of the first \<open>remainder\<close> bars) sum to exactly the available
  width, and the last bar ends at column \<open>2 + available_width\<close>.
\<close>

theorem bar_fill_exact:
  assumes "64 \<le> width - 4"
  shows "sum_list (bar_widths width 64) = width - 4 \<and>
         fst (bar_layout width 64) = 2 + (width - 4) \<and>
         length (bar_widths width 64) = 64"
proof -
  have "0 < (width - 4) div 64"
    using assms by (simp add: pos_imp_zdiv_pos_iff)
  then have bw: "max 1 ((width - 4) div 64) = (width - 4) div 64" by simp
  have "sum_list (bar_widths width 64) = width - 4"
    by (simp add: bar_widths_sum bw)
  moreover have "fst (bar_layout width 64) = 2 + sum_list (bar_widths width 64)"
    by (simp add: bar_widths_def bar_layout_def Let_def layout_loop o_def sum_list_map_upt)
  moreover have "length (bar_widths width 64) = 64"
    by (simp add: bar_widths_def bar_layout_def Let_def layout_loop)
  ultimately show ?thesis by simp
qed

theorem bar_fill_exact_witness:
  "(64::int) \<le> 132 - 4 \<and> sum_list (bar_widths 132 64) = 128 \<and>
   fst (bar_layout 132 64) = 130 \<and> length (bar_widths 132 64) = 64"
  using bar_fill_exact [of 132] by simp

text \<open>
  Below 64 columns the guard \<^verbatim>\<open>max(1, ...)\<close> keeps every bar one column wide and the
  bars overflow: on an 80-column terminal \<^verbatim>\<open>draw_ui\<close> passes the width 52, the available
  width is 48 and the bars take 112 columns.
\<close>

theorem bar_fill_counterexample:
  "sum_list (bar_widths 52 64) = 112 \<and> sum_list (bar_widths 52 64) \<noteq> 52 - 4"
  by (simp add: bar_widths_sum)

subsection \<open>C6: the seek clamp\<close>




subsection \<open>C7: the fade while not playing\<close>

text \<open>
  C7: when the mixer is not busy or the player is paused, one tick multiplies every band
  of \<open>audio_data\<close> by 0.82, every band of \<open>peak_data\<close> by 0.88 and \<open>beat_intensity\<close> by
  0.85, whatever the clock and the random draws are. So \<open>N\<close> such ticks in a row scale
  them by \<open>0.82^N\<close>, \<open>0.88^N\<close> and \<open>0.85^N\<close>, and from a reachable state no band and no
  intensity increases.
\<close>

theorem idle_fade:
  assumes "reachable s" and "\<forall>w\<in>set ws. \<not> (busy w \<and> \<not> paused s)" and "i < 64"
  shows "(\<forall>w\<in>set ws. generate_visualizer_data w s =
            s\<lparr>audio_data := map (\<lambda>x. x * 0.82) (audio_data s),
              peak_data := map (\<lambda>x. x * 0.88) (peak_data s),
              beat_intensity := beat_intensity s * 0.85\<rparr>) \<and>
         audio_data (ticks ws s) = map (\<lambda>x. x * 0.82 ^ length ws) (audio_data s) \<and>
         peak_data (ticks ws s) = map (\<lambda>x. x * 0.88 ^ length ws) (peak_data s) \<and>
         beat_intensity (ticks ws s) = beat_intensity s * 0.85 ^ length ws \<and>
         audio_data (ticks ws s) ! i \<le> audio_data s ! i \<and>
         peak_data (ticks ws s) ! i \<le> peak_data s ! i \<and>
         beat_intensity (ticks ws s) \<le> beat_intensity s"
proof -
  have inv: "vis_inv s" using assms(1) by (rule reachable_vis_inv)
  then have len: "length (audio_data s) = 64" "length (peak_data s) = 64"
    by (simp_all add: vis_inv_def)
  from inv assms(3) have a: "0 \<le> audio_data s ! i"
    and ap: "0.94 * audio_data s ! i \<le> peak_data s ! i"
    and b: "0 \<le> beat_intensity s"
    by (simp_all add: vis_inv_def)
  from a ap have p: "0 \<le> peak_data s ! i" by simp
  have one: "\<forall>w\<in>set ws. generate_visualizer_data w s =
            s\<lparr>audio_data := map (\<lambda>x. x * 0.82) (audio_data s),
              peak_data := map (\<lambda>x. x * 0.88) (peak_data s),
              beat_intensity := beat_intensity s * 0.85\<rparr>"
    using assms(2) idle_tick by blast
  have eq: "ticks ws s =
     s\<lparr>audio_data := map (\<lambda>x. x * 0.82 ^ length ws) (audio_data s),
       peak_data := map (\<lambda>x. x * 0.88 ^ length ws) (peak_data s),
       beat_intensity := beat_intensity s * 0.85 ^ length ws\<rparr>"
    using assms(2) by (rule idle_ticks)
  have "audio_data s ! i * 0.82 ^ length ws \<le> audio_data s ! i"
    using a by (rule fade_le) simp_all
  moreover have "peak_data s ! i * 0.88 ^ length ws \<le> peak_data s ! i"
    using p by (rule fade_le) simp_all
  moreover have "beat_intensity s * 0.85 ^ length ws \<le> beat_intensity s"
    using b by (rule fade_le) simp_all
  ultimately have "audio_data (ticks ws s) = map (\<lambda>x. x * 0.82 ^ length ws) (audio_data s) \<and>
         peak_data (ticks ws s) = map (\<lambda>x. x * 0.88 ^ length ws) (peak_data s) \<and>
         beat_intensity (ticks ws s) = beat_intensity s * 0.85 ^ length ws \<and>
         audio_data (ticks ws s) ! i \<le> audio_data s ! i \<and>
         peak_data (ticks ws s) ! i \<le> peak_data s ! i \<and>
         beat_intensity (ticks ws s) \<le> beat_intensity s"
    using len assms(3) by (simp add: eq)
  with one show ?thesis by blast
qed

theorem idle_fade_witness:
  "reachable first_tick \<and> \<not> (busy (quiet 1 False) \<and> \<not> paused first_tick) \<and>
   \<not> (busy (quiet 2 False) \<and> \<not> paused first_tick) \<and> (30::nat) < 64 \<and>
   audio_data first_tick ! 30 = 0.014625 \<and>
   audio_data (ticks [quiet 1 False, quiet 2 False] first_tick) ! 30 = 0.00983385 \<and>
   audio_data (ticks [quiet 1 False, quiet 2 False] first_tick) ! 30 \<le> audio_data first_tick ! 30"
proof -
  have a: "audio_data first_tick ! 30 = 0.014625"
    unfolding first_tick_def by (rule first_tick_band_30)
  have len: "length (audio_data first_tick) = 64"
    using reachable_vis_inv [OF reachable_first_tick] by (simp add: vis_inv_def)
  have idle: "\<forall>w\<in>set [quiet 1 False, quiet 2 False]. \<not> (busy w \<and> \<not> paused first_tick)"
    by (simp add: quiet_def)
  have "audio_data (ticks [quiet 1 False, quiet 2 False] first_tick) ! 30 = 0.00983385"
    using idle_fade [OF reachable_first_tick idle, of 30] a len
    by (simp add: power2_eq_square)
  with a show ?thesis
    using reachable_first_tick by (simp add: quiet_def)
qed

subsection \<open>C8: track wraparound\<close>

text \<open>
  C8: with a non-empty track list of length \<open>n\<close>, \<^verbatim>\<open>next_song\<close> returns normally and
  takes the index \<open>i\<close> to \<open>(i + 1) mod n\<close>, and \<^verbatim>\<open>prev_song\<close> takes it to \<open>(i - 1) mod n\<close>;
  with three tracks, next from 2 is 0 and previous from 0 is 2.
\<close>

theorem track_wraparound:
  assumes "songs s \<noteq> []"
  shows "(\<exists>s'. next_song w s = Inr s' \<and>
            current_song_index s' = (current_song_index s + 1) mod int (length (songs s))) \<and>
         (\<exists>s'. prev_song w s = Inr s' \<and>
            current_song_index s' = (current_song_index s - 1) mod int (length (songs s)))"
  using assms by (simp add: next_song_def prev_song_def play_song_def mod_index_valid)

theorem track_wraparound_witness:
  "songs three_tracks \<noteq> [] \<and> length (songs three_tracks) = 3 \<and>
   (\<exists>s'. next_song (quiet 0 True) (three_tracks\<lparr>current_song_index := 2\<rparr>) = Inr s' \<and>
         current_song_index s' = 0) \<and>
   (\<exists>s'. prev_song (quiet 0 True) (three_tracks\<lparr>current_song_index := 0\<rparr>) = Inr s' \<and>
         current_song_index s' = 2)"
  using track_wraparound [of "three_tracks\<lparr>current_song_index := 2\<rparr>" "quiet 0 True"]
    track_wraparound [of "three_tracks\<lparr>current_song_index := 0\<rparr>" "quiet 0 True"]
  by (simp add: demo_defs)

subsection \<open>C9: a failed length probe\<close>

text \<open>
  C9: when \<^verbatim>\<open>play_song\<close> starts a track and the length probe fails, the cached length
  is 0; and in any state with cached length 0 the progress of \<^verbatim>\<open>draw_progress_bar\<close> is
  0 and no cell of the bar is filled, whatever the clock says.
\<close>

theorem probe_failure_progress:
  assumes "songs s \<noteq> []" and "valid_index (songs s) (current_song_index s)"
    and "play_ok w" and "probe w = None"
  shows "(\<exists>s'. play_song w p s = Inr s' \<and> current_song_length s' = 0) \<and>
         (current_song_length t = 0 \<longrightarrow>
            progress_bar_progress w' t = 0 \<and> progress_bar_filled w' t width = 0)"
  using assms
  by (simp add: play_song_def progress_bar_progress_def progress_bar_filled_def
      get_song_length_def py_int_def)

theorem probe_failure_progress_witness:
  "songs three_tracks \<noteq> [] \<and> valid_index (songs three_tracks) (current_song_index three_tracks) \<and>
   play_ok (quiet 100 True) \<and> probe (quiet 100 True) = None \<and>
   play_song (quiet 100 True) 0 three_tracks = Inr started \<and>
   current_song_length started = 0 \<and>
   progress_bar_progress (quiet 1000 True) started = 0 \<and>
   progress_bar_filled (quiet 1000 True) started 80 = 0"
  using probe_failure_progress [of three_tracks "quiet 100 True" 0 started "quiet 1000 True" 80]
    play_three_tracks
  by (simp add: valid_index_def demo_defs)

subsection \<open>C10: the beat intensity stays in the unit interval\<close>

text \<open>
  C10: \<open>beat_intensity\<close> starts at 0, and in every reachable state and after one more
  tick from it (playing or not) it lies in \<open>[0, 1]\<close>: the smoothing with a beat in
  \<open>[0, 1]\<close>, the drop by 0.3 and the fade by 0.85 all keep it there.
\<close>

theorem beat_intensity_unit_interval:
  assumes "reachable s" and "valid_rnd (rnd w)"
  shows "beat_intensity (new_player dir found) = 0 \<and>
         0 \<le> beat_intensity s \<and> beat_intensity s \<le> 1 \<and>
         0 \<le> beat_intensity (generate_visualizer_data w s) \<and>
         beat_intensity (generate_visualizer_data w s) \<le> 1"
proof -
  have "vis_inv s" using assms(1) by (rule reachable_vis_inv)
  moreover from this have "vis_inv (generate_visualizer_data w s)" by (rule vis_inv_tick)
  ultimately show ?thesis by (simp add: vis_inv_def new_player_def load_songs_def)
qed

theorem beat_intensity_unit_interval_witness:
  "reachable three_tracks \<and> valid_rnd (rnd (quiet 0 True)) \<and>
   beat_intensity three_tracks = 0 \<and>
   beat_intensity (generate_visualizer_data (quiet 0 True) three_tracks) = 0.0375 \<and>
   0 \<le> beat_intensity (generate_visualizer_data (quiet 0 True) three_tracks) \<and>
   beat_intensity (generate_visualizer_data (quiet 0 True) three_tracks) \<le> 1"
proof -
  have "beat_intensity (generate_visualizer_data (quiet 0 True) three_tracks) = 0.0375"
    by (simp add: generate_visualizer_data_def Let_def demo_defs)
  moreover have "beat_intensity three_tracks = 0" by (simp add: demo_defs)
  ultimately show ?thesis
    using beat_intensity_unit_interval [OF reachable_three_tracks valid_rnd_quiet [of 0 True]]
      reachable_three_tracks valid_rnd_quiet [of 0 True]
    by simp
qed

end
